theory Spec2Isabelle
  imports Complex_Main "HOL-Library.AList"
begin

section \<open>Errors\<close>

text \<open>
  The exceptions that leave \<^verbatim>\<open>matgendb/vv/diff.py\<close>: \<^verbatim>\<open>ValueError\<close> with its message, and
  \<^verbatim>\<open>KeyError\<close> (a dictionary lookup that fails and is not caught; its argument is not
  modelled).
\<close>

datatype exn = ValueError string | KeyError

text \<open>\<^verbatim>\<open>"'{}'".format(s)\<close>: the string between single quotes.\<close>

definition quoted :: "string \<Rightarrow> string" where
  "quoted s = [CHR 0x27] @ s @ [CHR 0x27]"

section \<open>The class Delta\<close>

subsection \<open>The regular expression\<close>

text \<open>
  \<^verbatim>\<open>_num = "\d+(\.\d+)?"\<close> and
  \<^verbatim>\<open>_expr = re.compile("\+(?P<X>{n})?-(?P<Y>{n})?(?P<eq>=)?(?P<pct>%)?".format(n=_num))\<close>.

  Python's \<^verbatim>\<open>re\<close> is a backtracking matcher: every piece of the pattern offers its ways of
  matching a prefix of the input in order of preference (a greedy \<^verbatim>\<open>+\<close> the longest
  first, a greedy \<^verbatim>\<open>?\<close> the piece itself before nothing), and \<^verbatim>\<open>match\<close> returns the
  first way in which the whole pattern matches at position 0. Each piece is modelled as the
  list of its matches, most preferred first, as pairs of what was matched and what is left
  of the input.
\<close>

text \<open>\<^verbatim>\<open>\d\<close> in a pattern compiled without flags: the ASCII digits.\<close>

definition is_digit :: "char \<Rightarrow> bool" where
  "is_digit c = (c \<in> set ''0123456789'')"

text \<open>A literal character.\<close>

fun lit :: "char \<Rightarrow> string \<Rightarrow> (string \<times> string) list" where
  "lit c [] = []"
| "lit c (x # s) = (if x = c then [([x], s)] else [])"

text \<open>\<^verbatim>\<open>\d+\<close>, greedy: with one more digit first, with this digit alone last.\<close>

fun digits_plus :: "string \<Rightarrow> (string \<times> string) list" where
  "digits_plus [] = []"
| "digits_plus (c # s) =
     (if is_digit c then map (\<lambda>(m, r). (c # m, r)) (digits_plus s) @ [([c], s)] else [])"

text \<open>\<^verbatim>\<open>(\.\d+)?\<close>, greedy: the fraction first, nothing last.\<close>

definition frac_opt :: "string \<Rightarrow> (string \<times> string) list" where
  "frac_opt s =
     List.bind (lit (CHR ''.'') s) (\<lambda>(p, r). map (\<lambda>(m, r'). (p @ m, r')) (digits_plus r))
     @ [([], s)]"

text \<open>\<^verbatim>\<open>_num\<close>: \<^verbatim>\<open>\d+(\.\d+)?\<close>.\<close>

definition num :: "string \<Rightarrow> (string \<times> string) list" where
  "num s = List.bind (digits_plus s) (\<lambda>(m1, r1). map (\<lambda>(m2, r2). (m1 @ m2, r2)) (frac_opt r1))"

text \<open>
  An optional group \<^verbatim>\<open>(?P<name>p)?\<close>: the group's text when it took part in the match,
  \<^verbatim>\<open>None\<close> when it did not.
\<close>

definition group_opt ::
  "(string \<Rightarrow> (string \<times> string) list) \<Rightarrow> string \<Rightarrow> (string option \<times> string) list" where
  "group_opt p s = map (\<lambda>(m, r). (Some m, r)) (p s) @ [(None, s)]"

text \<open>
  The match object, as far as \<^verbatim>\<open>Delta.__init__\<close> reads it: \<^verbatim>\<open>groupdict()\<close> and the text after
  \<^verbatim>\<open>span()[1]\<close>.
\<close>

record match_obj =
  grpX :: "string option"
  grpY :: "string option"
  grp_eq :: "string option"
  grp_pct :: "string option"
  rest :: string

text \<open>All the ways \<^verbatim>\<open>_expr\<close> matches at the start of \<open>s\<close>, most preferred first.\<close>

definition expr_matches :: "string \<Rightarrow> match_obj list" where
  "expr_matches s =
     List.bind (lit (CHR ''+'') s) (\<lambda>(_, r1).
     List.bind (group_opt num r1) (\<lambda>(x, r2).
     List.bind (lit (CHR ''-'') r2) (\<lambda>(_, r3).
     List.bind (group_opt num r3) (\<lambda>(y, r4).
     List.bind (group_opt (lit (CHR ''='')) r4) (\<lambda>(e, r5).
     List.bind (group_opt (lit (CHR ''%'')) r5) (\<lambda>(p, r6).
       [\<lparr>grpX = x, grpY = y, grp_eq = e, grp_pct = p, rest = r6\<rparr>]))))))"

text \<open>\<^verbatim>\<open>_expr.match(s)\<close>: the first match, \<^verbatim>\<open>None\<close> when there is none.\<close>

definition expr_match :: "string \<Rightarrow> match_obj option" where
  "expr_match s = (case expr_matches s of [] \<Rightarrow> None | m # _ \<Rightarrow> Some m)"

subsection \<open>Numbers\<close>

text \<open>
  Python's floats are modelled as the real numbers: rounding, infinities and NaN are
  outside the model. \<^verbatim>\<open>float\<close> of a string that \<^verbatim>\<open>_num\<close> matched is the decimal number it
  writes.
\<close>

definition digit_val :: "char \<Rightarrow> nat" where
  "digit_val c = of_char c - 48"

definition digits_val :: "string \<Rightarrow> nat" where
  "digits_val ds = foldl (\<lambda>n c. 10 * n + digit_val c) 0 ds"

definition float_str :: "string \<Rightarrow> real" where
  "float_str s =
     (let ip = takeWhile (\<lambda>c. c \<noteq> CHR ''.'') s;
          fp = drop 1 (dropWhile (\<lambda>c. c \<noteq> CHR ''.'') s)
      in real (digits_val ip) + real (digits_val fp) / 10 ^ length fp)"

subsection \<open>Construction and comparison\<close>

record Delta =
  orig_expr :: string
  sign :: bool
  dx :: real
  dy :: real
  pct :: bool
  eq :: bool

text \<open>
  \<^verbatim>\<open>Delta.__init__(s)\<close>. \<^verbatim>\<open>d['X'] or d['Y']\<close> is \<^verbatim>\<open>d['X']\<close> unless that is \<^verbatim>\<open>None\<close> or empty.
\<close>

definition Delta_init :: "string \<Rightarrow> exn + Delta" where
  "Delta_init s =
     (case expr_match s of
        None \<Rightarrow> Inl (ValueError (''Bad syntax for delta '' @ quoted s))
      | Some m \<Rightarrow>
          if rest m \<noteq> []
          then Inl (ValueError (''Junk at end of delta '' @ quoted s @ '': '' @ rest m))
          else
            (case (grpX m, grpY m) of
               (None, None) \<Rightarrow>
                 Inr \<lparr>orig_expr = s, sign = True, dx = 0, dy = 0, pct = False, eq = False\<rparr>
             | (Some x, None) \<Rightarrow>
                 Inl (ValueError (''Bad syntax for delta '' @ quoted s @ '': +X-''))
             | (X, Some y) \<Rightarrow>
                 Inr \<lparr>orig_expr = s, sign = False,
                      dx = float_str (case X of
                                        None \<Rightarrow> y
                                      | Some x \<Rightarrow> if x \<noteq> [] then x else y),
                      dy = - float_str y,
                      pct = (grp_pct m \<noteq> None),
                      eq = (grp_eq m \<noteq> None)\<rparr>))"

text \<open>\<^verbatim>\<open>_cmp_sign\<close>: \<^verbatim>\<open>(a < 0 < b) or (a > 0 > b)\<close>.\<close>

definition cmp_sign :: "real \<Rightarrow> real \<Rightarrow> bool" where
  "cmp_sign a b = ((a < 0 \<and> 0 < b) \<or> (a > 0 \<and> 0 > b))"

definition cmp_val :: "Delta \<Rightarrow> real \<Rightarrow> real \<Rightarrow> bool" where
  "cmp_val d a b =
     (let delta = b - a
      in if eq d then delta \<ge> dx d \<or> delta \<le> dy d
         else delta > dx d \<or> delta < dy d)"

definition cmp_val_pct :: "Delta \<Rightarrow> real \<Rightarrow> real \<Rightarrow> bool" where
  "cmp_val_pct d a b =
     (if a = 0 then False
      else let delta = 100 * (b - a) / a
           in if eq d then delta \<ge> dx d \<or> delta \<le> dy d
              else delta > dx d \<or> delta < dy d)"

text \<open>
  \<^verbatim>\<open>cmp\<close> calls the function that \<^verbatim>\<open>__init__\<close> chose from \<^verbatim>\<open>_sign\<close> and \<^verbatim>\<open>_pct\<close>; the fields
  are not written after construction.
\<close>

definition cmp :: "Delta \<Rightarrow> real \<Rightarrow> real \<Rightarrow> bool" where
  "cmp d old new =
     (if sign d then cmp_sign old new
      else if pct d then cmp_val_pct d old new
      else cmp_val d old new)"

subsection \<open>The syntax of a rule, as the documentation gives it\<close>

text \<open>
  The class documents the syntax \<^verbatim>\<open>+X-Y\<close> with optional \<^verbatim>\<open>X\<close> and \<^verbatim>\<open>Y\<close>, an optional
  \<^verbatim>\<open>=\<close> and an optional \<^verbatim>\<open>%\<close>; \<^verbatim>\<open>X\<close> and \<^verbatim>\<open>Y\<close> are decimal numbers: digits, or digits, a
  point and digits. These definitions say so directly, without the matcher, for the
  statements about \<^const>\<open>Delta_init\<close> to refer to.
\<close>

definition digits :: "string \<Rightarrow> bool" where
  "digits s = (s \<noteq> [] \<and> list_all is_digit s)"

definition is_num :: "string \<Rightarrow> bool" where
  "is_num s =
     (case dropWhile (\<lambda>c. c \<noteq> CHR ''.'') s of
        [] \<Rightarrow> digits s
      | _ # fp \<Rightarrow> digits (takeWhile (\<lambda>c. c \<noteq> CHR ''.'') s) \<and> digits fp)"

text \<open>\<open>delta_syntax s X Y e p\<close>: \<open>s\<close> is a rule with the parts \<open>X\<close>, \<open>Y\<close>, \<open>e\<close> and \<open>p\<close>, each possibly empty.\<close>

definition delta_syntax :: "string \<Rightarrow> string \<Rightarrow> string \<Rightarrow> string \<Rightarrow> string \<Rightarrow> bool" where
  "delta_syntax s X Y e p \<longleftrightarrow>
     s = ''+'' @ X @ ''-'' @ Y @ e @ p \<and> (X = [] \<or> is_num X) \<and> (Y = [] \<or> is_num Y) \<and>
     (e = [] \<or> e = ''='') \<and> (p = [] \<or> p = ''%'')"

text \<open>The text of a group (empty when the group is \<^verbatim>\<open>None\<close>), and the group of a text.\<close>

definition grp_text :: "string option \<Rightarrow> string" where
  "grp_text g = (case g of None \<Rightarrow> [] | Some x \<Rightarrow> x)"

definition grp :: "string \<Rightarrow> string option" where
  "grp x = (if x = [] then None else Some x)"

section \<open>The class Differ\<close>

subsection \<open>Records, configuration and Python's builtins\<close>

text \<open>
  A record of a collection is a dictionary from field names to values. The values are of
  any type \<open>'v\<close>; a key is the value of the key field. The collections \<^verbatim>\<open>c1\<close> and \<^verbatim>\<open>c2\<close> enter
  the model as the lists of records that \<^verbatim>\<open>coll.query(criteria=..., properties=...)\<close> yields;
  connecting to the database, the filter and the projection belong to the query engine.
\<close>

type_synonym 'v rec = "string \<rightharpoonup> 'v"

text \<open>
  \<^verbatim>\<open>float(v)\<close> and \<^verbatim>\<open>str(v)\<close> on the values of a record are parameters of the model.
  \<open>py_float v = None\<close> stands for \<^verbatim>\<open>TypeError\<close> or \<^verbatim>\<open>ValueError\<close>. \<^verbatim>\<open>"{}".format(v)\<close> is
  taken to be \<^verbatim>\<open>str(v)\<close>.
\<close>

record 'v builtins =
  py_float :: "'v \<Rightarrow> real option"
  py_str :: "'v \<Rightarrow> string"

text \<open>
  The fields of a \<^verbatim>\<open>Differ\<close>: \<^verbatim>\<open>_key_field\<close>, \<^verbatim>\<open>_props\<close>, \<^verbatim>\<open>_info\<close> and \<^verbatim>\<open>_prop_deltas\<close>, the
  last a dictionary given by the list of its items, each property once.
\<close>

record Differ =
  key_field :: string
  props :: "string list"
  info :: "string list"
  prop_deltas :: "(string \<times> Delta) list"

definition has_info :: "Differ \<Rightarrow> bool" where
  "has_info df = (info df \<noteq> [])"

text \<open>\<^verbatim>\<open>_all_props = list(set(self._props[:] + self._prop_deltas.keys()))\<close>, as a truth value.\<close>

definition has_props :: "Differ \<Rightarrow> bool" where
  "has_props df = (props df @ map fst (prop_deltas df) \<noteq> [])"

definition has_numprops :: "Differ \<Rightarrow> bool" where
  "has_numprops df = (prop_deltas df \<noteq> [])"

definition has_eqprops :: "Differ \<Rightarrow> bool" where
  "has_eqprops df = (props df \<noteq> [])"

definition MISSING :: string where "MISSING = ''missing''"
definition NEW :: string where "NEW = ''additional''"
definition CHANGED :: string where "CHANGED = ''different''"

subsection \<open>The query loop\<close>

text \<open>
  What the loop over one collection keeps: \<^verbatim>\<open>keys[i]\<close> (a set, here a list without
  repetition), \<^verbatim>\<open>numprops[i]\<close>, \<^verbatim>\<open>eqprops[i]\<close>, the dictionary \<^verbatim>\<open>info\<close> that both collections
  share (an association list, since the code tests it for emptiness), \<^verbatim>\<open>count\<close> and
  \<^verbatim>\<open>missing_props\<close>.
\<close>

record 'v coll_state =
  keys :: "'v list"
  numprops :: "'v \<rightharpoonup> (string \<rightharpoonup> real)"
  eqprops :: "'v \<rightharpoonup> (string \<times> string) list"
  info_dict :: "('v \<times> (string \<rightharpoonup> 'v)) list"
  count :: nat
  missing_props :: nat

text \<open>
  How a step ends: normally, with \<^verbatim>\<open>return {}\<close> (\<open>Abort\<close>), or with an exception.
\<close>

datatype 'a outcome = Ok 'a | Abort | Raise exn

text \<open>
  The loop over \<^verbatim>\<open>self._prop_deltas.iterkeys()\<close>: a missing property counts in
  \<^verbatim>\<open>missing_props\<close> and the loop goes on; a value that is not a number raises.
\<close>

fun numprops_loop ::
  "'v builtins \<Rightarrow> nat \<Rightarrow> 'v \<Rightarrow> 'v rec \<Rightarrow> string list \<Rightarrow> (string \<rightharpoonup> real) \<Rightarrow> nat
     \<Rightarrow> exn + (string \<rightharpoonup> real) \<times> nat" where
  "numprops_loop py i key rec [] pvals mp = Inr (pvals, mp)"
| "numprops_loop py i key rec (pkey # pkeys) pvals mp =
     (case rec pkey of
        None \<Rightarrow> numprops_loop py i key rec pkeys pvals (mp + 1)
      | Some v \<Rightarrow>
          (case py_float py v of
             None \<Rightarrow>
               Inl (ValueError (''Not a number: collection='' @ [''old'', ''new''] ! i @
                      '' key='' @ py_str py key @ '' '' @ pkey @ ''='' @ quoted (py_str py v)))
           | Some x \<Rightarrow> numprops_loop py i key rec pkeys (pvals(pkey \<mapsto> x)) mp))"

text \<open>
  \<^verbatim>\<open>tuple([(p, str(rec[p])) for p in self._props])\<close>; \<open>None\<close> is the \<^verbatim>\<open>KeyError\<close>.
\<close>

fun eq_tuple :: "'v builtins \<Rightarrow> 'v rec \<Rightarrow> string list \<Rightarrow> (string \<times> string) list option" where
  "eq_tuple py rec [] = Some []"
| "eq_tuple py rec (p # ps) =
     (case rec p of
        None \<Rightarrow> None
      | Some v \<Rightarrow> map_option ((#) (p, py_str py v)) (eq_tuple py rec ps))"

text \<open>\<^verbatim>\<open>for k in self._info: info[key][k] = rec[k]\<close>; \<open>None\<close> is the \<^verbatim>\<open>KeyError\<close>, not caught.\<close>

fun info_loop :: "'v rec \<Rightarrow> string list \<Rightarrow> (string \<rightharpoonup> 'v) \<Rightarrow> (string \<rightharpoonup> 'v) option" where
  "info_loop rec [] d = Some d"
| "info_loop rec (k # ks) d =
     (case rec k of None \<Rightarrow> None | Some v \<Rightarrow> info_loop rec ks (d(k \<mapsto> v)))"

text \<open>
  The body of \<^verbatim>\<open>for rec in coll.query(...)\<close>. The \<^verbatim>\<open>continue\<close> after a missing equality
  property skips the informational fields of the record.
\<close>

definition query_step ::
  "Differ \<Rightarrow> 'v builtins \<Rightarrow> bool \<Rightarrow> nat \<Rightarrow> 'v coll_state \<Rightarrow> 'v rec \<Rightarrow> 'v coll_state outcome" where
  "query_step df py allow_dup i st0 rec =
     (let st = st0\<lparr>count := count st0 + 1\<rparr> in
      case rec (key_field df) of
        None \<Rightarrow> Abort
      | Some key \<Rightarrow>
          if \<not> allow_dup \<and> key \<in> set (keys st)
          then Raise (ValueError (''Duplicate key: '' @ py_str py key))
          else
            let st = st\<lparr>keys := List.insert key (keys st)\<rparr> in
            case (if has_numprops df
                  then (case numprops_loop py i key rec (map fst (prop_deltas df)) Map.empty
                               (missing_props st) of
                          Inl e \<Rightarrow> Inl e
                        | Inr (pvals, mp) \<Rightarrow>
                            Inr (st\<lparr>missing_props := mp,
                                    numprops := (numprops st)(key \<mapsto> pvals)\<rparr>))
                  else Inr st) of
              Inl e \<Rightarrow> Raise e
            | Inr st \<Rightarrow>
                (case (if has_eqprops df
                       then (case eq_tuple py rec (props df) of
                               None \<Rightarrow> None
                             | Some propval \<Rightarrow>
                                 Some (st\<lparr>eqprops := (eqprops st)(key \<mapsto> propval)\<rparr>))
                       else Some st) of
                   None \<Rightarrow> Ok (st\<lparr>missing_props := missing_props st + 1\<rparr>)
                 | Some st \<Rightarrow>
                     if has_info df
                     then (case info_loop rec (info df)
                                  (case map_of (info_dict st) key of
                                     None \<Rightarrow> Map.empty
                                   | Some d \<Rightarrow> d) of
                             None \<Rightarrow> Raise KeyError
                           | Some d \<Rightarrow>
                               Ok (st\<lparr>info_dict := AList.update key d (info_dict st)\<rparr>))
                     else Ok st))"

fun query_loop ::
  "Differ \<Rightarrow> 'v builtins \<Rightarrow> bool \<Rightarrow> nat \<Rightarrow> 'v rec list \<Rightarrow> 'v coll_state \<Rightarrow> 'v coll_state outcome" where
  "query_loop df py allow_dup i [] st = Ok st"
| "query_loop df py allow_dup i (rec # recs) st =
     (case query_step df py allow_dup i st rec of
        Ok st' \<Rightarrow> query_loop df py allow_dup i recs st'
      | Abort \<Rightarrow> Abort
      | Raise e \<Rightarrow> Raise e)"

text \<open>
  One round of \<^verbatim>\<open>for i, coll in enumerate(engines)\<close>: from empty \<^verbatim>\<open>keys[i]\<close>, \<^verbatim>\<open>numprops[i]\<close>
  and \<^verbatim>\<open>eqprops[i]\<close>, zero counters and the \<^verbatim>\<open>info\<close> of before, the loop over the records, then
  \<^verbatim>\<open>if 0 < count == missing_props: return {}\<close>. The warning of the \<^verbatim>\<open>elif\<close> goes to the log
  and changes nothing.
\<close>

definition init_state :: "('v \<times> (string \<rightharpoonup> 'v)) list \<Rightarrow> 'v coll_state" where
  "init_state info0 =
     \<lparr>keys = [], numprops = Map.empty, eqprops = Map.empty, info_dict = info0,
      count = 0, missing_props = 0\<rparr>"

definition query_coll ::
  "Differ \<Rightarrow> 'v builtins \<Rightarrow> bool \<Rightarrow> nat \<Rightarrow> 'v rec list \<Rightarrow> ('v \<times> (string \<rightharpoonup> 'v)) list
     \<Rightarrow> 'v coll_state outcome" where
  "query_coll df py allow_dup i recs info0 =
     (case query_loop df py allow_dup i recs (init_state info0) of
        Ok st \<Rightarrow> if 0 < count st \<and> count st = missing_props st then Abort else Ok st
      | Abort \<Rightarrow> Abort
      | Raise e \<Rightarrow> Raise e)"

subsection \<open>Changed properties and the result\<close>

text \<open>
  The values of the records of the result: a value of a record (the key, an informational
  field), a string, a tuple of pairs of strings, a \<^verbatim>\<open>Delta\<close>, and the string
  \<^verbatim>\<open>"{:f}".format(x)\<close>, which is kept as the number it formats. A raw value and a string built
  by the code are kept apart by their constructors.
\<close>

datatype 'v oval = Raw 'v | Str string | Tup "(string \<times> string) list" | Rule Delta | Fmt_f real

type_synonym 'v orec = "string \<rightharpoonup> 'v oval"

text \<open>\<^verbatim>\<open>_up(change, info[key]) if info else change\<close>, with \<^verbatim>\<open>_up = lambda d, v: d.update(v) or d\<close>.\<close>

definition up_info ::
  "('v \<times> (string \<rightharpoonup> 'v)) list \<Rightarrow> 'v \<Rightarrow> 'v orec \<Rightarrow> exn + 'v orec" where
  "up_info info_d key change =
     (if info_d \<noteq> []
      then (case map_of info_d key of
              None \<Rightarrow> Inl KeyError
            | Some d \<Rightarrow> Inr (change ++ (map_option Raw \<circ> d)))
      else Inr change)"

text \<open>The loop \<^verbatim>\<open>for pkey in self._prop_deltas\<close> of \<^verbatim>\<open>_changed_props\<close>, for one key.\<close>

fun delta_changes ::
  "Differ \<Rightarrow> 'v coll_state \<Rightarrow> 'v coll_state \<Rightarrow> ('v \<times> (string \<rightharpoonup> 'v)) list \<Rightarrow> 'v
     \<Rightarrow> (string \<times> Delta) list \<Rightarrow> 'v orec list \<Rightarrow> exn + 'v orec list" where
  "delta_changes df st0 st1 info_d key [] changed = Inr changed"
| "delta_changes df st0 st1 info_d key ((pkey, delta) # deltas) changed =
     (case Option.bind (numprops st0 key) (\<lambda>pvals. pvals pkey) of
        None \<Rightarrow> Inl KeyError
      | Some oldval \<Rightarrow>
          (case Option.bind (numprops st1 key) (\<lambda>pvals. pvals pkey) of
             None \<Rightarrow> Inl KeyError
           | Some newval \<Rightarrow>
               if cmp delta oldval newval
               then (case up_info info_d key
                            (Map.empty(''match_type'' \<mapsto> Str ''delta'', key_field df \<mapsto> Raw key,
                               ''property'' \<mapsto> Str pkey, ''old'' \<mapsto> Fmt_f oldval,
                               ''new'' \<mapsto> Fmt_f newval, ''rule'' \<mapsto> Rule delta)) of
                       Inl e \<Rightarrow> Inl e
                     | Inr change \<Rightarrow>
                         delta_changes df st0 st1 info_d key deltas (changed @ [change]))
               else delta_changes df st0 st1 info_d key deltas changed))"

text \<open>The exact comparison of \<^verbatim>\<open>_changed_props\<close>, for one key.\<close>

definition exact_change ::
  "Differ \<Rightarrow> 'v coll_state \<Rightarrow> 'v coll_state \<Rightarrow> ('v \<times> (string \<rightharpoonup> 'v)) list \<Rightarrow> 'v
     \<Rightarrow> 'v orec list \<Rightarrow> exn + 'v orec list" where
  "exact_change df st0 st1 info_d key changed =
     (case eqprops st0 key of
        None \<Rightarrow> Inl KeyError
      | Some old \<Rightarrow>
          (case eqprops st1 key of
             None \<Rightarrow> Inl KeyError
           | Some new \<Rightarrow>
               if \<not> old = new
               then (case up_info info_d key
                            (Map.empty(''match_type'' \<mapsto> Str ''exact'', key_field df \<mapsto> Raw key,
                               ''old'' \<mapsto> Tup old, ''new'' \<mapsto> Tup new)) of
                       Inl e \<Rightarrow> Inl e
                     | Inr change \<Rightarrow> Inr (changed @ [change]))
               else Inr changed))"

text \<open>The loop \<^verbatim>\<open>for key in keys[0].intersection(keys[1])\<close>.\<close>

fun changed_loop ::
  "Differ \<Rightarrow> 'v coll_state \<Rightarrow> 'v coll_state \<Rightarrow> ('v \<times> (string \<rightharpoonup> 'v)) list \<Rightarrow> 'v list
     \<Rightarrow> 'v orec list \<Rightarrow> exn + 'v orec list" where
  "changed_loop df st0 st1 info_d [] changed = Inr changed"
| "changed_loop df st0 st1 info_d (key # ks) changed =
     (case (if has_numprops df
            then delta_changes df st0 st1 info_d key (prop_deltas df) changed
            else Inr changed) of
        Inl e \<Rightarrow> Inl e
      | Inr changed \<Rightarrow>
          (case (if has_eqprops df
                 then exact_change df st0 st1 info_d key changed
                 else Inr changed) of
             Inl e \<Rightarrow> Inl e
           | Inr changed \<Rightarrow> changed_loop df st0 st1 info_d ks changed))"

text \<open>
  \<^verbatim>\<open>_changed_props\<close>. The order in which Python walks a set is not specified; the model
  walks the common keys in the order of \<^verbatim>\<open>keys[0]\<close>.
\<close>

definition changed_props ::
  "Differ \<Rightarrow> 'v coll_state \<Rightarrow> 'v coll_state \<Rightarrow> ('v \<times> (string \<rightharpoonup> 'v)) list
     \<Rightarrow> exn + 'v orec list" where
  "changed_props df st0 st1 info_d =
     changed_loop df st0 st1 info_d [key \<leftarrow> keys st0. key \<in> set (keys st1)] []"

text \<open>
  A record of \<^verbatim>\<open>missing\<close> or \<^verbatim>\<open>additional\<close>: \<^verbatim>\<open>rec = {self._key_field: key}\<close>, then
  \<^verbatim>\<open>rec.update(info.get(key, {}))\<close> when informational fields are configured.
\<close>

definition key_rec :: "Differ \<Rightarrow> ('v \<times> (string \<rightharpoonup> 'v)) list \<Rightarrow> 'v \<Rightarrow> 'v orec" where
  "key_rec df info_d key =
     (let rec = Map.empty(key_field df \<mapsto> Raw key)
      in if has_info df
         then rec ++ (map_option Raw \<circ> (case map_of info_d key of None \<Rightarrow> Map.empty | Some d \<Rightarrow> d))
         else rec)"

text \<open>
  \<^verbatim>\<open>Differ.diff(c1, c2, only_missing, allow_dup)\<close>. The result is a dictionary from
  \<^verbatim>\<open>'missing'\<close>, \<^verbatim>\<open>'additional'\<close> and \<^verbatim>\<open>'different'\<close> to lists of records; \<^verbatim>\<open>return {}\<close> is the
  empty dictionary.
\<close>

definition diff ::
  "Differ \<Rightarrow> 'v builtins \<Rightarrow> 'v rec list \<Rightarrow> 'v rec list \<Rightarrow> bool \<Rightarrow> bool
     \<Rightarrow> exn + (string \<rightharpoonup> 'v orec list)" where
  "diff df py c1 c2 only_missing allow_dup =
     (case query_coll df py allow_dup 0 c1 [] of
        Abort \<Rightarrow> Inr Map.empty
      | Raise e \<Rightarrow> Inl e
      | Ok st0 \<Rightarrow>
          (case query_coll df py allow_dup 1 c2 (info_dict st0) of
             Abort \<Rightarrow> Inr Map.empty
           | Raise e \<Rightarrow> Inl e
           | Ok st1 \<Rightarrow>
               let info_d = info_dict st1;
                   missing = [key \<leftarrow> keys st0. key \<notin> set (keys st1)];
                   new = [key \<leftarrow> keys st1. key \<notin> set (keys st0)]
               in case (if has_props df then changed_props df st0 st1 info_d else Inr []) of
                    Inl e \<Rightarrow> Inl e
                  | Inr changed \<Rightarrow>
                      let result = Map.empty(MISSING \<mapsto> map (key_rec df info_d) missing);
                          result = (if \<not> only_missing
                                    then result(NEW \<mapsto> map (key_rec df info_d) new)
                                    else result)
                      in Inr (result(CHANGED \<mapsto> changed))))"

subsection \<open>Notions for the statements\<close>

text \<open>The keys of a collection: the values of the key field of its records.\<close>

definition keys_of :: "Differ \<Rightarrow> 'v rec list \<Rightarrow> 'v set" where
  "keys_of df c = {key. \<exists>rec \<in> set c. rec (key_field df) = Some key}"

text \<open>
  \<^verbatim>\<open>diff\<close> leaves through one of its two \<^verbatim>\<open>return {}\<close>: in the loop over the first collection
  or, when that one went through, in the loop over the second.
\<close>

definition diff_aborts :: "Differ \<Rightarrow> 'v builtins \<Rightarrow> 'v rec list \<Rightarrow> 'v rec list \<Rightarrow> bool \<Rightarrow> bool" where
  "diff_aborts df py c1 c2 allow_dup =
     (case query_coll df py allow_dup 0 c1 [] of
        Abort \<Rightarrow> True
      | Raise e \<Rightarrow> False
      | Ok st0 \<Rightarrow>
          (case query_coll df py allow_dup 1 c2 (info_dict st0) of
             Abort \<Rightarrow> True
           | _ \<Rightarrow> False))"

text \<open>
  An invariant of \<^verbatim>\<open>info\<close>: the entry of a key holds informational fields only and, under
  the key field, nothing or that key.
\<close>

definition info_inv :: "Differ \<Rightarrow> ('v \<times> (string \<rightharpoonup> 'v)) list \<Rightarrow> bool" where
  "info_inv df info_d \<longleftrightarrow>
     (\<forall>key d. map_of info_d key = Some d \<longrightarrow>
        dom d \<subseteq> set (info df) \<and>
        (d (key_field df) = None \<or> d (key_field df) = Some key))"

subsection \<open>Collections of Python ints\<close>

text \<open>
  The builtins on records whose values are all Python ints: \<^verbatim>\<open>float(k)\<close> is the number \<open>k\<close>
  and \<^verbatim>\<open>str(k)\<close> its decimal writing. The concrete inputs below are of this kind.
\<close>

fun str_nat :: "nat \<Rightarrow> string" where
  "str_nat n =
     (if n < 10 then [char_of (48 + n)] else str_nat (n div 10) @ [char_of (48 + n mod 10)])"

declare str_nat.simps [simp del]

definition str_int :: "int \<Rightarrow> string" where
  "str_int k = (if k < 0 then ''-'' @ str_nat (nat (- k)) else str_nat (nat k))"

definition int_builtins :: "int builtins" where
  "int_builtins = \<lparr>py_float = (\<lambda>k. Some (of_int k)), py_str = str_int\<rparr>"

text \<open>\<^verbatim>\<open>Differ()\<close>: the key \<^verbatim>\<open>_id\<close>, nothing to compare, nothing to show.\<close>

definition df_keys :: Differ where
  "df_keys = \<lparr>key_field = ''_id'', props = [], info = [], prop_deltas = []\<rparr>"

subsection \<open>Notions for the statements about duplicate keys\<close>



subsection \<open>Concrete configurations\<close>

text \<open>\<^verbatim>\<open>Delta('+-1')\<close>, and \<^verbatim>\<open>Differ(deltas={'p': Delta('+-1')})\<close>.\<close>

definition delta_pm1 :: Delta where
  "delta_pm1 = \<lparr>orig_expr = ''+-1'', sign = False, dx = 1, dy = - 1, pct = False, eq = False\<rparr>"

definition df_p :: Differ where
  "df_p = \<lparr>key_field = ''_id'', props = [], info = [], prop_deltas = [(''p'', delta_pm1)]\<rparr>"

text \<open>\<^verbatim>\<open>Differ(deltas={'a': Delta('+-1'), 'b': Delta('+-1')})\<close>.\<close>

definition df_ab :: Differ where
  "df_ab = \<lparr>key_field = ''_id'', props = [], info = [],
            prop_deltas = [(''a'', delta_pm1), (''b'', delta_pm1)]\<rparr>"

subsection \<open>Notions for the statements about exact changes\<close>





subsection \<open>Notions for the statements about missing properties\<close>

text \<open>
  A record that misses a compared property: a configured numeric property, or, with equality
  fields configured, one of them.
\<close>

definition lacks_props :: "'v builtins \<Rightarrow> Differ \<Rightarrow> 'v rec \<Rightarrow> bool" where
  "lacks_props py df rec \<longleftrightarrow>
     (\<exists>p \<in> set (map fst (prop_deltas df)). rec p = None) \<or>
     (has_eqprops df \<and> eq_tuple py rec (props df) = None)"

text \<open>
  The configurations in which a record can raise \<^verbatim>\<open>missing_props\<close> by one at most: at most one
  numeric property and no equality fields, or no numeric property.
\<close>

definition single_count :: "Differ \<Rightarrow> bool" where
  "single_count df \<longleftrightarrow> (length (prop_deltas df) \<le> 1 \<and> props df = []) \<or> prop_deltas df = []"

section \<open>Properties of Delta\<close>

subsection \<open>The matcher\<close>

lemma not_digit_point [simp]: "\<not> is_digit (CHR ''.'')" "\<not> is_digit (CHR ''-'')"
   "\<not> is_digit (CHR ''='')" "\<not> is_digit (CHR ''%'')" "\<not> is_digit (CHR ''+'')"
  by (simp_all add: is_digit_def)

lemma digits_plus_Nil_iff: "digits_plus s = [] \<longleftrightarrow> (s = [] \<or> \<not> is_digit (hd s))"
  by (cases s) auto

lemma digits_plus_sound:
  "(m, r) \<in> set (digits_plus s) \<Longrightarrow> s = m @ r \<and> digits m"
  by (induction s arbitrary: m r) (auto simp: digits_def split: if_splits)

lemma digits_plus_append:
  "digits a \<Longrightarrow> r = [] \<or> \<not> is_digit (hd r) \<Longrightarrow> \<exists>ms. digits_plus (a @ r) = (a, r) # ms"
proof (induction a)
  case Nil
  then show ?case by (simp add: digits_def)
next
  case (Cons c a)
  show ?case
  proof (cases a)
    case Nil
    with Cons.prems show ?thesis
      by (cases r) (auto simp: digits_def)
  next
    case (Cons c' a')
    with Cons.prems have "digits a" by (simp add: digits_def)
    from Cons.IH [OF this Cons.prems(2)] obtain ms where "digits_plus (a @ r) = (a, r) # ms" ..
    with Cons.prems show ?thesis by (simp add: digits_def)
  qed
qed



lemma frac_opt_simps:
  "frac_opt [] = [([], [])]"
  "frac_opt (c # s) =
     (if c = CHR ''.'' then map (\<lambda>(m, r). (CHR ''.'' # m, r)) (digits_plus s) else [])
     @ [([], c # s)]"
  by (simp_all add: frac_opt_def)

lemma digits_no_point: "digits m \<Longrightarrow> CHR ''.'' \<notin> set m"
  by (auto simp: digits_def list_all_iff)

lemma is_num_iff:
  "is_num m \<longleftrightarrow> digits m \<or> (\<exists>a b. m = a @ CHR ''.'' # b \<and> digits a \<and> digits b)"
proof
  assume "is_num m"
  show "digits m \<or> (\<exists>a b. m = a @ CHR ''.'' # b \<and> digits a \<and> digits b)"
  proof (cases "dropWhile (\<lambda>c. c \<noteq> CHR ''.'') m")
    case Nil
    with \<open>is_num m\<close> show ?thesis by (simp add: is_num_def)
  next
    case (Cons c fp)
    then have "c = CHR ''.''"
      using hd_dropWhile [of "\<lambda>c. c \<noteq> CHR ''.''" m] by auto
    with Cons have "m = takeWhile (\<lambda>c. c \<noteq> CHR ''.'') m @ CHR ''.'' # fp"
      using takeWhile_dropWhile_id [of "\<lambda>c. c \<noteq> CHR ''.''" m] by simp
    with \<open>is_num m\<close> Cons show ?thesis by (auto simp: is_num_def)
  qed
next
  assume "digits m \<or> (\<exists>a b. m = a @ CHR ''.'' # b \<and> digits a \<and> digits b)"
  then show "is_num m"
  proof
    assume d: "digits m"
    have e: "dropWhile (\<lambda>c. c \<noteq> CHR ''.'') m = []"
      using digits_no_point [OF d] by auto
    show ?thesis unfolding is_num_def e using d by simp
  next
    assume "\<exists>a b. m = a @ CHR ''.'' # b \<and> digits a \<and> digits b"
    then obtain a b where m: "m = a @ CHR ''.'' # b" and a: "digits a" and b: "digits b" by blast
    from digits_no_point [OF a] have na: "\<forall>c\<in>set a. c \<noteq> CHR ''.''" by auto
    then have e: "dropWhile (\<lambda>c. c \<noteq> CHR ''.'') m = CHR ''.'' # b"
      and t: "takeWhile (\<lambda>c. c \<noteq> CHR ''.'') m = a"
      using m by (simp_all add: dropWhile_append3 takeWhile_tail)
    show ?thesis unfolding is_num_def e t using a b by simp
  qed
qed

lemma frac_opt_sound:
  "(m, r) \<in> set (frac_opt s) \<Longrightarrow> s = m @ r \<and> (m = [] \<or> (\<exists>b. m = CHR ''.'' # b \<and> digits b))"
  by (cases s) (auto simp: frac_opt_simps dest: digits_plus_sound split: if_splits)

lemma num_sound: "(m, r) \<in> set (num s) \<Longrightarrow> s = m @ r \<and> is_num m"
proof -
  assume "(m, r) \<in> set (num s)"
  then obtain m1 r1 m2 where 1: "(m1, r1) \<in> set (digits_plus s)"
    and 2: "(m2, r) \<in> set (frac_opt r1)" and m: "m = m1 @ m2"
    by (auto simp: num_def set_list_bind)
  from digits_plus_sound [OF 1] frac_opt_sound [OF 2] m
  show ?thesis by (auto simp: is_num_iff)
qed

lemma num_Nil_iff: "num s = [] \<longleftrightarrow> (s = [] \<or> \<not> is_digit (hd s))"
proof (cases "digits_plus s")
  case Nil
  then show ?thesis using digits_plus_Nil_iff [of s] by (simp add: num_def)
next
  case (Cons x xs)
  obtain m1 r1 where "x = (m1, r1)" by (cases x)
  with Cons have "num s \<noteq> []" by (cases r1) (simp_all add: num_def frac_opt_simps)
  with Cons show ?thesis using digits_plus_Nil_iff [of s] by simp
qed

lemma frac_opt_no_point: "r = [] \<or> hd r \<noteq> CHR ''.'' \<Longrightarrow> frac_opt r = [([], r)]"
  by (cases r) (auto simp: frac_opt_simps)

lemma num_append:
  assumes X: "is_num X" and r: "r = [] \<or> (\<not> is_digit (hd r) \<and> hd r \<noteq> CHR ''.'')"
  shows "\<exists>ms. num (X @ r) = (X, r) # ms"
proof -
  from X have "digits X \<or> (\<exists>a b. X = a @ CHR ''.'' # b \<and> digits a \<and> digits b)"
    by (simp add: is_num_iff)
  then show ?thesis
  proof
    assume d: "digits X"
    from r have "r = [] \<or> \<not> is_digit (hd r)" by auto
    from digits_plus_append [OF d this] obtain ms where "digits_plus (X @ r) = (X, r) # ms" ..
    moreover from r have "frac_opt r = [([], r)]" by (intro frac_opt_no_point) auto
    ultimately show ?thesis by (simp add: num_def)
  next
    assume "\<exists>a b. X = a @ CHR ''.'' # b \<and> digits a \<and> digits b"
    then obtain a b where X': "X = a @ CHR ''.'' # b" and a: "digits a" and b: "digits b" by blast
    have "\<exists>ms. digits_plus (a @ (CHR ''.'' # b @ r)) = (a, CHR ''.'' # b @ r) # ms"
      by (rule digits_plus_append [OF a]) simp
    then obtain ms where 1: "digits_plus (X @ r) = (a, CHR ''.'' # b @ r) # ms"
      using X' by auto
    from r have "r = [] \<or> \<not> is_digit (hd r)" by auto
    from digits_plus_append [OF b this] obtain ms' where 2: "digits_plus (b @ r) = (b, r) # ms'" ..
    from 1 2 X' show ?thesis by (simp add: num_def frac_opt_simps)
  qed
qed


lemma lit_mem: "(a, r) \<in> set (lit c s) \<longleftrightarrow> a = [c] \<and> s = c # r"
  by (cases s) auto

lemma group_opt_mem:
  "(x, r) \<in> set (group_opt p s) \<longleftrightarrow>
     (x = None \<and> r = s) \<or> (\<exists>m. x = Some m \<and> (m, r) \<in> set (p s))"
  by (auto simp: group_opt_def)

lemma expr_matches_sound:
  assumes "m \<in> set (expr_matches s)"
  shows "\<exists>g. s = g @ rest m \<and>
           delta_syntax g (grp_text (grpX m)) (grp_text (grpY m)) (grp_text (grp_eq m)) (grp_text (grp_pct m))"
proof -
  from assms obtain a1 r1 x r2 a3 r3 y r4 e r5 p r6 where
    1: "(a1, r1) \<in> set (lit (CHR ''+'') s)" and
    2: "(x, r2) \<in> set (group_opt num r1)" and
    3: "(a3, r3) \<in> set (lit (CHR ''-'') r2)" and
    4: "(y, r4) \<in> set (group_opt num r3)" and
    5: "(e, r5) \<in> set (group_opt (lit (CHR ''='')) r4)" and
    6: "(p, r6) \<in> set (group_opt (lit (CHR ''%'')) r5)" and
    m: "m = \<lparr>grpX = x, grpY = y, grp_eq = e, grp_pct = p, rest = r6\<rparr>"
    by (auto simp: expr_matches_def set_list_bind)
  from 1 have s: "s = CHR ''+'' # r1" by (simp add: lit_mem)
  from 2 have x: "r1 = grp_text x @ r2 \<and> (grp_text x = [] \<or> is_num (grp_text x))"
    by (auto simp: group_opt_mem grp_text_def dest: num_sound)
  from 3 have r2: "r2 = CHR ''-'' # r3" by (simp add: lit_mem)
  from 4 have y: "r3 = grp_text y @ r4 \<and> (grp_text y = [] \<or> is_num (grp_text y))"
    by (auto simp: group_opt_mem grp_text_def dest: num_sound)
  from 5 have e: "r4 = grp_text e @ r5 \<and> (grp_text e = [] \<or> grp_text e = ''='')"
    by (auto simp: group_opt_mem grp_text_def lit_mem)
  from 6 have p: "r5 = grp_text p @ r6 \<and> (grp_text p = [] \<or> grp_text p = ''%'')"
    by (auto simp: group_opt_mem grp_text_def lit_mem)
  have "s = (''+'' @ grp_text x @ ''-'' @ grp_text y @ grp_text e @ grp_text p) @ r6"
    using s x r2 y e p by simp
  with x y e p m show ?thesis
    unfolding delta_syntax_def by (intro exI [of _ "''+'' @ grp_text x @ ''-'' @ grp_text y @ grp_text e @ grp_text p"]) simp
qed

lemma expr_match_sound:
  "expr_match s = Some m \<Longrightarrow> \<exists>g. s = g @ rest m \<and>
           delta_syntax g (grp_text (grpX m)) (grp_text (grpY m)) (grp_text (grp_eq m)) (grp_text (grp_pct m))"
  by (rule expr_matches_sound) (auto simp: expr_match_def split: list.splits)



lemma group_opt_num_hd:
  assumes "X = [] \<or> is_num X" and "r = [] \<or> (\<not> is_digit (hd r) \<and> hd r \<noteq> CHR ''.'')"
  shows "\<exists>ms. group_opt num (X @ r) = (grp X, r) # ms"
proof (cases "X = []")
  case True
  with assms(2) have "num (X @ r) = []" by (auto simp: num_Nil_iff)
  with True show ?thesis by (simp add: group_opt_def grp_def)
next
  case False
  with assms(1) have "is_num X" by simp
  from num_append [OF this assms(2)] obtain ms where "num (X @ r) = (X, r) # ms" ..
  with False show ?thesis by (simp add: group_opt_def grp_def)
qed

lemma group_opt_lit_hd:
  assumes "e = [] \<or> e = [c]" and "r = [] \<or> hd r \<noteq> c"
  shows "\<exists>ms. group_opt (lit c) (e @ r) = (grp e, r) # ms"
  using assms by (cases r) (auto simp: group_opt_def grp_def)

lemma expr_match_complete:
  assumes "delta_syntax s X Y e p"
  shows "expr_match s =
           Some \<lparr>grpX = grp X, grpY = grp Y, grp_eq = grp e, grp_pct = grp p, rest = []\<rparr>"
proof -
  from assms have s: "s = CHR ''+'' # X @ CHR ''-'' # Y @ e @ p"
    and X: "X = [] \<or> is_num X" and Y: "Y = [] \<or> is_num Y"
    and e: "e = [] \<or> e = ''=''" and p: "p = [] \<or> p = ''%''"
    by (simp_all add: delta_syntax_def)
  let ?m = "\<lparr>grpX = grp X, grpY = grp Y, grp_eq = grp e, grp_pct = grp p, rest = []\<rparr>"
  let ?F6 = "\<lambda>x y e. (\<lambda>(p, r6). [\<lparr>grpX = x, grpY = y, grp_eq = e, grp_pct = p, rest = r6\<rparr>])"
  let ?F5 = "\<lambda>x y. (\<lambda>(e, r5). List.bind (group_opt (lit (CHR ''%'')) r5) (?F6 x y e))"
  let ?F4 = "\<lambda>x. (\<lambda>(y, r4). List.bind (group_opt (lit (CHR ''='')) r4) (?F5 x y))"
  let ?F3 = "\<lambda>x. (\<lambda>(u::string, r3). List.bind (group_opt num r3) (?F4 x))"
  let ?F2 = "\<lambda>(x, r2). List.bind (lit (CHR ''-'') r2) (?F3 x)"
  from group_opt_lit_hd [of p "CHR ''%''" "[]"] p
  obtain ms6 where "group_opt (lit (CHR ''%'')) p = (grp p, []) # ms6" by auto
  then have 6: "\<exists>zs. List.bind (group_opt (lit (CHR ''%'')) p) (?F6 (grp X) (grp Y) (grp e)) = ?m # zs"
    by simp
  from group_opt_lit_hd [of e "CHR ''=''" p] e p
  obtain ms5 where "group_opt (lit (CHR ''='')) (e @ p) = (grp e, p) # ms5" by auto
  with 6 have 5: "\<exists>zs. List.bind (group_opt (lit (CHR ''='')) (e @ p)) (?F5 (grp X) (grp Y)) = ?m # zs"
    by auto
  from e p have "e @ p = [] \<or> (\<not> is_digit (hd (e @ p)) \<and> hd (e @ p) \<noteq> CHR ''.'')" by auto
  from group_opt_num_hd [OF Y this]
  obtain ms4 where "group_opt num (Y @ e @ p) = (grp Y, e @ p) # ms4" by auto
  with 5 have 4: "\<exists>zs. List.bind (group_opt num (Y @ e @ p)) (?F4 (grp X)) = ?m # zs"
    by auto
  then have 3: "\<exists>zs. List.bind (lit (CHR ''-'') (CHR ''-'' # Y @ e @ p)) (?F3 (grp X)) = ?m # zs"
    by auto
  have "\<exists>ms. group_opt num (X @ (CHR ''-'' # Y @ e @ p)) = (grp X, CHR ''-'' # Y @ e @ p) # ms"
    by (rule group_opt_num_hd [OF X]) simp
  then obtain ms2 where "group_opt num (X @ CHR ''-'' # Y @ e @ p) = (grp X, CHR ''-'' # Y @ e @ p) # ms2"
    by auto
  with 3 have 2: "\<exists>zs. List.bind (group_opt num (X @ CHR ''-'' # Y @ e @ p)) ?F2 = ?m # zs"
    by auto
  then have "\<exists>zs. expr_matches s = ?m # zs"
    unfolding expr_matches_def s by simp
  then show ?thesis by (auto simp: expr_match_def)
qed


lemma Delta_init_syntax:
  assumes "delta_syntax s X Y e p"
  shows "Delta_init s =
     (if X = [] \<and> Y = []
      then Inr \<lparr>orig_expr = s, sign = True, dx = 0, dy = 0, pct = False, eq = False\<rparr>
      else if Y = [] then Inl (ValueError (''Bad syntax for delta '' @ quoted s @ '': +X-''))
      else Inr \<lparr>orig_expr = s, sign = False, dx = float_str (if X = [] then Y else X),
                dy = - float_str Y, pct = (p \<noteq> []), eq = (e \<noteq> [])\<rparr>)"
  unfolding Delta_init_def expr_match_complete [OF assms]
  by (simp add: grp_def)



subsection \<open>Threshold rules\<close>



subsection \<open>The sign rule\<close>

text \<open>
  Claim C3. A Delta compiled from \<^verbatim>\<open>+-\<close> matches \<open>(old, new)\<close> exactly when the two have
  strictly opposite signs: \<open>old < 0\<close> and \<open>new > 0\<close>, or \<open>old > 0\<close> and \<open>new < 0\<close>. Zero has
  neither sign: \<open>cmp(-1, 1)\<close> and \<open>cmp(1, -1)\<close> hold, \<open>cmp(1, 2)\<close> and \<open>cmp(0, 5)\<close> do not.
\<close>

theorem Delta_sign_rule:
  "\<exists>d. Delta_init ''+-'' = Inr d \<and>
       (\<forall>old new. cmp d old new \<longleftrightarrow> (old < 0 \<and> new > 0) \<or> (old > 0 \<and> new < 0)) \<and>
       cmp d (- 1) 1 \<and> cmp d 1 (- 1) \<and> \<not> cmp d 1 2 \<and> \<not> cmp d 0 5"
proof -
  have "delta_syntax ''+-'' [] [] [] []" by (simp add: delta_syntax_def)
  from Delta_init_syntax [OF this] show ?thesis
    by (simp add: cmp_def cmp_sign_def)
qed

subsection \<open>Percentage rules\<close>




subsection \<open>Syntax errors\<close>

lemma Delta_init_cases:
  "(\<exists>d. Delta_init s = Inr d \<and> orig_expr d = s) \<or>
   Delta_init s = Inl (ValueError (''Bad syntax for delta '' @ quoted s)) \<or>
   Delta_init s = Inl (ValueError (''Bad syntax for delta '' @ quoted s @ '': +X-'')) \<or>
   (\<exists>m. expr_match s = Some m \<and> rest m \<noteq> [] \<and>
     Delta_init s = Inl (ValueError (''Junk at end of delta '' @ quoted s @ '': '' @ rest m)))"
  by (auto simp: Delta_init_def split: option.splits prod.splits)

lemma Delta_init_names_expr:
  assumes "Delta_init s = Inl err"
  shows "\<exists>a b. err = ValueError (a @ s @ b)"
proof -
  let ?q = "[CHR 0x27]"
  from Delta_init_cases [of s] show ?thesis
  proof (elim disjE exE conjE)
    fix d assume "Delta_init s = Inr d"
    with assms show ?thesis by simp
  next
    assume "Delta_init s = Inl (ValueError (''Bad syntax for delta '' @ quoted s))"
    with assms have "err = ValueError ((''Bad syntax for delta '' @ ?q) @ s @ ?q)"
      by (simp add: quoted_def)
    then show ?thesis by blast
  next
    assume "Delta_init s = Inl (ValueError (''Bad syntax for delta '' @ quoted s @ '': +X-''))"
    with assms have "err = ValueError ((''Bad syntax for delta '' @ ?q) @ s @ (?q @ '': +X-''))"
      by (simp add: quoted_def)
    then show ?thesis by blast
  next
    fix m
    assume "Delta_init s = Inl (ValueError (''Junk at end of delta '' @ quoted s @ '': '' @ rest m))"
    with assms have "err = ValueError ((''Junk at end of delta '' @ ?q) @ s @ (?q @ '': '' @ rest m))"
      by (simp add: quoted_def)
    then show ?thesis by blast
  qed
qed

lemma Delta_init_Inr_syntax:
  assumes "Delta_init s = Inr d"
  shows "\<exists>X Y e p. delta_syntax s X Y e p"
proof -
  from assms obtain m where m: "expr_match s = Some m" and r: "rest m = []"
    by (auto simp: Delta_init_def split: option.splits if_splits)
  from expr_match_sound [OF m] r show ?thesis by auto
qed

text \<open>
  Claim C9. \<^verbatim>\<open>Delta(s)\<close> raises \<^verbatim>\<open>ValueError\<close> exactly when \<open>s\<close> is malformed: \<open>s\<close> as a whole is
  not a rule of the syntax (it has no grammatical prefix, or characters are left after one),
  or \<open>s\<close> gives \<open>X\<close> but no \<open>Y\<close>. Otherwise the construction succeeds, and the Delta keeps
  \<open>s\<close>. Every error message names \<open>s\<close>; when the match leaves characters unparsed after a
  grammatical prefix, the message ends with them.
\<close>

theorem Delta_init_syntax_errors:
  "((\<exists>msg. Delta_init s = Inl (ValueError msg)) \<longleftrightarrow>
      \<not> (\<exists>X Y e p. delta_syntax s X Y e p) \<or> (\<exists>X e p. X \<noteq> [] \<and> delta_syntax s X [] e p)) \<and>
   ((\<exists>d. Delta_init s = Inr d \<and> orig_expr d = s) \<longleftrightarrow>
      (\<exists>X Y e p. delta_syntax s X Y e p \<and> (X = [] \<or> Y \<noteq> []))) \<and>
   (\<forall>err. Delta_init s = Inl err \<longrightarrow> (\<exists>a b. err = ValueError (a @ s @ b))) \<and>
   (\<forall>m. expr_match s = Some m \<and> rest m \<noteq> [] \<longrightarrow>
      (\<exists>g X Y e p. delta_syntax g X Y e p \<and> s = g @ rest m) \<and>
      Delta_init s = Inl (ValueError (''Junk at end of delta '' @ quoted s @ '': '' @ rest m)))"
proof (intro conjI allI impI)
  show "(\<exists>msg. Delta_init s = Inl (ValueError msg)) \<longleftrightarrow>
      \<not> (\<exists>X Y e p. delta_syntax s X Y e p) \<or> (\<exists>X e p. X \<noteq> [] \<and> delta_syntax s X [] e p)"
  proof (cases "\<exists>X Y e p. delta_syntax s X Y e p")
    case False
    with Delta_init_Inr_syntax [of s] Delta_init_names_expr [of s] show ?thesis
      by (cases "Delta_init s") auto
  next
    case True
    then obtain X Y e p where d: "delta_syntax s X Y e p" by blast
    show ?thesis
    proof (cases "X \<noteq> [] \<and> Y = []")
      case True
      with d Delta_init_syntax [OF d] show ?thesis by auto
    next
      case False
      with Delta_init_syntax [OF d] have "\<exists>d. Delta_init s = Inr d" by auto
      moreover have "\<not> (\<exists>X e p. X \<noteq> [] \<and> delta_syntax s X [] e p)"
      proof
        assume "\<exists>X e p. X \<noteq> [] \<and> delta_syntax s X [] e p"
        then obtain X' e' p' where "X' \<noteq> []" and d': "delta_syntax s X' [] e' p'" by blast
        with Delta_init_syntax [OF d'] \<open>\<exists>d. Delta_init s = Inr d\<close> show False by auto
      qed
      ultimately show ?thesis using d by auto
    qed
  qed
next
  show "(\<exists>d. Delta_init s = Inr d \<and> orig_expr d = s) \<longleftrightarrow>
      (\<exists>X Y e p. delta_syntax s X Y e p \<and> (X = [] \<or> Y \<noteq> []))"
  proof
    assume "\<exists>d. Delta_init s = Inr d \<and> orig_expr d = s"
    then obtain d where i: "Delta_init s = Inr d" by blast
    from Delta_init_Inr_syntax [OF this] obtain X Y e p where d: "delta_syntax s X Y e p"
      by blast
    with Delta_init_syntax [OF d] i have "X = [] \<or> Y \<noteq> []" by (auto split: if_splits)
    with d show "\<exists>X Y e p. delta_syntax s X Y e p \<and> (X = [] \<or> Y \<noteq> [])" by blast
  next
    assume "\<exists>X Y e p. delta_syntax s X Y e p \<and> (X = [] \<or> Y \<noteq> [])"
    then obtain X Y e p where d: "delta_syntax s X Y e p" and "X = [] \<or> Y \<noteq> []" by blast
    with Delta_init_syntax [OF d] show "\<exists>d. Delta_init s = Inr d \<and> orig_expr d = s" by auto
  qed
next
  fix err assume "Delta_init s = Inl err"
  then show "\<exists>a b. err = ValueError (a @ s @ b)" by (rule Delta_init_names_expr)
next
  fix m assume m: "expr_match s = Some m \<and> rest m \<noteq> []"
  with expr_match_sound [of s m]
  show "\<exists>g X Y e p. delta_syntax g X Y e p \<and> s = g @ rest m" by blast
  from m show "Delta_init s = Inl (ValueError (''Junk at end of delta '' @ quoted s @ '': '' @ rest m))"
    by (simp add: Delta_init_def)
qed

theorem Delta_init_syntax_errors_witness:
  "(\<exists>msg. Delta_init ''+3-'' = Inl (ValueError msg)) \<and>
   (\<exists>X Y e p. delta_syntax ''+-5'' X Y e p \<and> (X = [] \<or> Y \<noteq> [])) \<and>
   \<not> (\<exists>X Y e p. delta_syntax ''+-5x'' X Y e p \<and> (X = [] \<or> Y \<noteq> [])) \<and>
   (\<exists>g X Y e p. delta_syntax g X Y e p \<and> ''+-5x'' = g @ ''x'')"
proof -
  have a: "delta_syntax ''+3-'' ''3'' [] [] []"
    by (simp add: delta_syntax_def is_num_def digits_def is_digit_def)
  have b: "Delta_init ''+-5'' =
      Inr \<lparr>orig_expr = ''+-5'', sign = False, dx = 5, dy = - 5, pct = False, eq = False\<rparr>"
    by code_simp
  have c: "Delta_init ''+-5x'' =
      Inl (ValueError (''Junk at end of delta '' @ quoted ''+-5x'' @ '': x''))"
    by code_simp
  have d: "expr_match ''+-5x'' =
      Some \<lparr>grpX = None, grpY = Some ''5'', grp_eq = None, grp_pct = None, rest = ''x''\<rparr>"
    by code_simp
  have 1: "\<exists>msg. Delta_init ''+3-'' = Inl (ValueError msg)"
    using Delta_init_syntax_errors [of "''+3-''"] a by blast
  have 2: "\<exists>X Y e p. delta_syntax ''+-5'' X Y e p \<and> (X = [] \<or> Y \<noteq> [])"
    using Delta_init_syntax_errors [of "''+-5''"] b by simp
  have 3: "\<not> (\<exists>X Y e p. delta_syntax ''+-5x'' X Y e p \<and> (X = [] \<or> Y \<noteq> []))"
    using Delta_init_syntax_errors [of "''+-5x''"] c by simp
  have 4: "\<exists>g X Y e p. delta_syntax g X Y e p \<and> ''+-5x'' = g @ ''x''"
    using Delta_init_syntax_errors [of "''+-5x''"] d by simp
  from 1 2 3 4 show ?thesis by blast
qed

section \<open>Properties of Differ\<close>

subsection \<open>The query loop\<close>

lemma info_loop_field:
  "info_loop rec ks d = Some d' \<Longrightarrow> d' k = (if k \<in> set ks then rec k else d k)"
  by (induction ks arbitrary: d) (auto split: option.splits)

lemma query_step_Ok:
  assumes "query_step df py allow_dup i st rec = Ok st'"
  shows "\<exists>key. rec (key_field df) = Some key \<and> keys st' = List.insert key (keys st) \<and>
           (\<not> allow_dup \<longrightarrow> key \<notin> set (keys st)) \<and> count st' = count st + 1"
  using assms
  by (auto simp: query_step_def Let_def split: option.splits if_splits sum.splits prod.splits)

lemma query_step_info_inv:
  assumes "query_step df py allow_dup i st rec = Ok st'" and "info_inv df (info_dict st)"
  shows "info_inv df (info_dict st')"
proof -
  from assms(1) obtain key where key: "rec (key_field df) = Some key"
    using query_step_Ok by blast
  from assms(1) key have
    "info_dict st' = info_dict st \<or>
     (\<exists>d. info_loop rec (info df)
             (case map_of (info_dict st) key of None \<Rightarrow> Map.empty | Some d \<Rightarrow> d) = Some d \<and>
           info_dict st' = AList.update key d (info_dict st))"
    by (auto simp: query_step_def Let_def split: option.splits if_splits sum.splits prod.splits)
  then show ?thesis
  proof
    assume "info_dict st' = info_dict st"
    with assms(2) show ?thesis by simp
  next
    assume "\<exists>d. info_loop rec (info df)
             (case map_of (info_dict st) key of None \<Rightarrow> Map.empty | Some d \<Rightarrow> d) = Some d \<and>
           info_dict st' = AList.update key d (info_dict st)"
    then obtain d where
      l: "info_loop rec (info df)
            (case map_of (info_dict st) key of None \<Rightarrow> Map.empty | Some d \<Rightarrow> d) = Some d"
      and u: "info_dict st' = AList.update key d (info_dict st)" by blast
    from info_loop_field [OF l, of "key_field df"] key assms(2)
    have "d (key_field df) = None \<or> d (key_field df) = Some key"
      by (auto simp: info_inv_def split: option.splits if_splits)
    moreover have "dom d \<subseteq> set (info df)"
    proof
      fix k assume kd: "k \<in> dom d"
      show "k \<in> set (info df)"
      proof (rule ccontr)
        assume n: "k \<notin> set (info df)"
        with info_loop_field [OF l, of k] kd obtain a where
          a: "map_of (info_dict st) key = Some a" and "k \<in> dom a"
          by (cases "map_of (info_dict st) key") (auto simp: dom_def)
        from assms(2) a have "dom a \<subseteq> set (info df)" by (simp add: info_inv_def)
        with \<open>k \<in> dom a\<close> n show False by blast
      qed
    qed
    ultimately show ?thesis using assms(2) u
      by (auto simp: info_inv_def update_conv')
  qed
qed

lemma query_loop_Ok:
  assumes "query_loop df py allow_dup i recs st = Ok st'"
  shows "set (keys st') = set (keys st) \<union> keys_of df recs \<and>
         (distinct (keys st) \<longrightarrow> distinct (keys st')) \<and>
         (info_inv df (info_dict st) \<longrightarrow> info_inv df (info_dict st')) \<and>
         count st' = count st + length recs"
  using assms
proof (induction recs arbitrary: st)
  case Nil
  then show ?case by (simp add: keys_of_def)
next
  case (Cons rec recs)
  from Cons.prems obtain st1 where 1: "query_step df py allow_dup i st rec = Ok st1"
    and 2: "query_loop df py allow_dup i recs st1 = Ok st'"
    by (auto split: outcome.splits)
  from query_step_Ok [OF 1] obtain key where key: "rec (key_field df) = Some key"
    and k: "keys st1 = List.insert key (keys st)" and c: "count st1 = count st + 1" by blast
  have "keys_of df (rec # recs) = insert key (keys_of df recs)"
    using key by (auto simp: keys_of_def)
  with Cons.IH [OF 2] k c query_step_info_inv [OF 1] show ?case by auto
qed

lemma query_coll_Ok:
  assumes "query_coll df py allow_dup i recs info0 = Ok st" and "info_inv df info0"
  shows "set (keys st) = keys_of df recs \<and> distinct (keys st) \<and> info_inv df (info_dict st)"
proof -
  from assms(1) have "query_loop df py allow_dup i recs (init_state info0) = Ok st"
    by (auto simp: query_coll_def split: outcome.splits if_splits)
  from query_loop_Ok [OF this] assms(2) show ?thesis by (simp add: init_state_def)
qed

lemma info_inv_Nil: "info_inv df []"
  by (simp add: info_inv_def)

lemma key_rec_key:
  assumes "info_inv df info_d"
  shows "key_rec df info_d key (key_field df) = Some (Raw key)"
proof (cases "map_of info_d key")
  case None
  then show ?thesis by (simp add: key_rec_def Let_def map_add_def)
next
  case (Some d)
  with assms have "d (key_field df) = None \<or> d (key_field df) = Some key"
    by (simp add: info_inv_def)
  with Some show ?thesis by (auto simp: key_rec_def Let_def map_add_def)
qed

lemma diff_Inr_cases:
  assumes "diff df py c1 c2 only_missing allow_dup = Inr r"
  shows "(diff_aborts df py c1 c2 allow_dup \<and> r = Map.empty) \<or>
         (\<not> diff_aborts df py c1 c2 allow_dup \<and>
          (\<exists>st0 st1 changed.
             query_coll df py allow_dup 0 c1 [] = Ok st0 \<and>
             query_coll df py allow_dup 1 c2 (info_dict st0) = Ok st1 \<and>
             (if has_props df then changed_props df st0 st1 (info_dict st1) else Inr []) = Inr changed \<and>
             r MISSING = Some (map (key_rec df (info_dict st1)) [key \<leftarrow> keys st0. key \<notin> set (keys st1)]) \<and>
             r NEW = (if only_missing then None
                      else Some (map (key_rec df (info_dict st1)) [key \<leftarrow> keys st1. key \<notin> set (keys st0)])) \<and>
             r CHANGED = Some changed))"
  using assms
  by (auto simp: diff_def diff_aborts_def Let_def MISSING_def NEW_def CHANGED_def
           split: outcome.splits sum.splits if_splits)

lemma changed_props_disjoint:
  "set (keys st0) \<inter> set (keys st1) = {} \<Longrightarrow> changed_props df st0 st1 info_d = Inr []"
proof -
  assume "set (keys st0) \<inter> set (keys st1) = {}"
  then have "[key \<leftarrow> keys st0. key \<in> set (keys st1)] = []"
    by (auto simp: filter_empty_conv)
  then show ?thesis by (simp add: changed_props_def)
qed

lemma key_recs_keys:
  assumes "info_inv df info_d"
  shows "map (\<lambda>m. m (key_field df)) (map (key_rec df info_d) ks) = map (\<lambda>k. Some (Raw k)) ks"
  using key_rec_key [OF assms] by simp

lemmas ex_defs = diff_def query_coll_def init_state_def query_step_def int_builtins_def
  has_numprops_def has_eqprops_def has_info_def has_props_def changed_props_def Let_def
  MISSING_def NEW_def CHANGED_def key_rec_def

subsection \<open>Missing and additional keys\<close>

text \<open>
  Claim C6. For every successful \<^verbatim>\<open>diff(c1, c2, only_missing, allow_dup)\<close> (one whose result is
  not the empty dictionary): the records under \<^verbatim>\<open>'missing'\<close> carry, each once, exactly the keys
  of \<^verbatim>\<open>c1\<close> that are not keys of \<^verbatim>\<open>c2\<close>; \<^verbatim>\<open>'additional'\<close> is in the result exactly when
  \<^verbatim>\<open>only_missing\<close> is false, and its records then carry exactly the keys of \<^verbatim>\<open>c2\<close> that are not
  keys of \<^verbatim>\<open>c1\<close>; when the two collections share no key, \<^verbatim>\<open>'different'\<close> is empty.
\<close>

theorem diff_key_sets:
  assumes "diff df py c1 c2 only_missing allow_dup = Inr r" and "r \<noteq> Map.empty"
  shows "(\<exists>ms. r MISSING = Some ms \<and> distinct (map (\<lambda>m. m (key_field df)) ms) \<and>
            set (map (\<lambda>m. m (key_field df)) ms) =
              (\<lambda>key. Some (Raw key)) ` (keys_of df c1 - keys_of df c2)) \<and>
         (if only_missing then r NEW = None
          else \<exists>ns. r NEW = Some ns \<and> distinct (map (\<lambda>m. m (key_field df)) ns) \<and>
                 set (map (\<lambda>m. m (key_field df)) ns) =
                   (\<lambda>key. Some (Raw key)) ` (keys_of df c2 - keys_of df c1)) \<and>
         (keys_of df c1 \<inter> keys_of df c2 = {} \<longrightarrow> r CHANGED = Some [])"
proof -
  from diff_Inr_cases [OF assms(1)] assms(2) obtain st0 st1 changed where
    q0: "query_coll df py allow_dup 0 c1 [] = Ok st0" and
    q1: "query_coll df py allow_dup 1 c2 (info_dict st0) = Ok st1" and
    ch: "(if has_props df then changed_props df st0 st1 (info_dict st1) else Inr []) = Inr changed" and
    m: "r MISSING = Some (map (key_rec df (info_dict st1)) [key \<leftarrow> keys st0. key \<notin> set (keys st1)])" and
    n: "r NEW = (if only_missing then None
                 else Some (map (key_rec df (info_dict st1)) [key \<leftarrow> keys st1. key \<notin> set (keys st0)]))" and
    c: "r CHANGED = Some changed"
    by blast
  from query_coll_Ok [OF q0 info_inv_Nil] have k0: "set (keys st0) = keys_of df c1"
    and d0: "distinct (keys st0)" and i0: "info_inv df (info_dict st0)" by simp_all
  from query_coll_Ok [OF q1 i0] have k1: "set (keys st1) = keys_of df c2"
    and d1: "distinct (keys st1)" and i1: "info_inv df (info_dict st1)" by simp_all
  define ms where "ms = map (key_rec df (info_dict st1)) [key \<leftarrow> keys st0. key \<notin> set (keys st1)]"
  have km: "map (\<lambda>m. m (key_field df)) ms =
      map (\<lambda>key. Some (Raw key)) [key \<leftarrow> keys st0. key \<notin> set (keys st1)]"
    unfolding ms_def by (rule key_recs_keys [OF i1])
  have "distinct (map (\<lambda>m. m (key_field df)) ms)"
    unfolding km using d0 by (simp add: distinct_map inj_on_def)
  moreover have "set (map (\<lambda>m. m (key_field df)) ms) =
      (\<lambda>key. Some (Raw key)) ` (keys_of df c1 - keys_of df c2)"
    unfolding km using k0 k1 by auto
  moreover from m have "r MISSING = Some ms" by (simp add: ms_def)
  ultimately have 1: "\<exists>ms. r MISSING = Some ms \<and> distinct (map (\<lambda>m. m (key_field df)) ms) \<and>
            set (map (\<lambda>m. m (key_field df)) ms) =
              (\<lambda>key. Some (Raw key)) ` (keys_of df c1 - keys_of df c2)"
    by (intro exI [of _ ms] conjI)
  define ns where "ns = map (key_rec df (info_dict st1)) [key \<leftarrow> keys st1. key \<notin> set (keys st0)]"
  have kn: "map (\<lambda>m. m (key_field df)) ns =
      map (\<lambda>key. Some (Raw key)) [key \<leftarrow> keys st1. key \<notin> set (keys st0)]"
    unfolding ns_def by (rule key_recs_keys [OF i1])
  have "distinct (map (\<lambda>m. m (key_field df)) ns)"
    unfolding kn using d1 by (simp add: distinct_map inj_on_def)
  moreover have "set (map (\<lambda>m. m (key_field df)) ns) =
      (\<lambda>key. Some (Raw key)) ` (keys_of df c2 - keys_of df c1)"
    unfolding kn using k0 k1 by auto
  moreover from n have "r NEW = (if only_missing then None else Some ns)" by (simp add: ns_def)
  ultimately have 2: "if only_missing then r NEW = None
          else \<exists>ns. r NEW = Some ns \<and> distinct (map (\<lambda>m. m (key_field df)) ns) \<and>
                 set (map (\<lambda>m. m (key_field df)) ns) =
                   (\<lambda>key. Some (Raw key)) ` (keys_of df c2 - keys_of df c1)"
  proof (cases only_missing)
    case True
    with \<open>r NEW = (if only_missing then None else Some ns)\<close> show ?thesis by simp
  next
    case False
    with \<open>r NEW = (if only_missing then None else Some ns)\<close> have "r NEW = Some ns" by simp
    with \<open>distinct (map (\<lambda>m. m (key_field df)) ns)\<close>
      \<open>set (map (\<lambda>m. m (key_field df)) ns) =
        (\<lambda>key. Some (Raw key)) ` (keys_of df c2 - keys_of df c1)\<close>
    have "\<exists>ns. r NEW = Some ns \<and> distinct (map (\<lambda>m. m (key_field df)) ns) \<and>
                 set (map (\<lambda>m. m (key_field df)) ns) =
                   (\<lambda>key. Some (Raw key)) ` (keys_of df c2 - keys_of df c1)"
      by (intro exI [of _ ns] conjI)
    with False show ?thesis by simp
  qed
  have 3: "keys_of df c1 \<inter> keys_of df c2 = {} \<longrightarrow> r CHANGED = Some []"
  proof
    assume "keys_of df c1 \<inter> keys_of df c2 = {}"
    with k0 k1 have "changed_props df st0 st1 (info_dict st1) = Inr []"
      by (intro changed_props_disjoint) simp
    with ch c show "r CHANGED = Some []" by (auto split: if_splits)
  qed
  from 1 2 3 show ?thesis by (intro conjI)
qed

theorem diff_key_sets_witness:
  "diff df_keys int_builtins [[''_id'' \<mapsto> 1], [''_id'' \<mapsto> 2]] [[''_id'' \<mapsto> 2], [''_id'' \<mapsto> 3]]
      False False =
     Inr [MISSING \<mapsto> [[''_id'' \<mapsto> Raw 1]], NEW \<mapsto> [[''_id'' \<mapsto> Raw 3]], CHANGED \<mapsto> []] \<and>
   keys_of df_keys [[''_id'' \<mapsto> 1], [''_id'' \<mapsto> 2::int]] -
     keys_of df_keys [[''_id'' \<mapsto> 2], [''_id'' \<mapsto> 3]] = {1} \<and>
   keys_of df_keys [[''_id'' \<mapsto> 2], [''_id'' \<mapsto> 3::int]] -
     keys_of df_keys [[''_id'' \<mapsto> 1], [''_id'' \<mapsto> 2]] = {3}"
proof -
  let ?c1 = "[[''_id'' \<mapsto> 1], [''_id'' \<mapsto> 2::int]]"
  let ?c2 = "[[''_id'' \<mapsto> 2], [''_id'' \<mapsto> 3::int]]"
  let ?r = "[MISSING \<mapsto> [[''_id'' \<mapsto> Raw 1]], NEW \<mapsto> [[''_id'' \<mapsto> Raw (3::int)]], CHANGED \<mapsto> []]"
  let ?f = "\<lambda>key::int. Some (Raw key)"
  have 1: "diff df_keys int_builtins ?c1 ?c2 False False = Inr ?r"
    by (simp add: ex_defs df_keys_def)
  have 2: "?r \<noteq> Map.empty" by simp
  have inj: "inj ?f" by (simp add: inj_on_def)
  have m: "?r MISSING = Some [[''_id'' \<mapsto> Raw 1]]" and n: "?r NEW = Some [[''_id'' \<mapsto> Raw 3]]"
    by (simp_all add: MISSING_def NEW_def CHANGED_def)
  from diff_key_sets [OF 1 2] have
    "\<exists>ms. ?r MISSING = Some ms \<and> distinct (map (\<lambda>m. m (key_field df_keys)) ms) \<and>
       set (map (\<lambda>m. m (key_field df_keys)) ms) = ?f ` (keys_of df_keys ?c1 - keys_of df_keys ?c2)"
    and "\<exists>ns. ?r NEW = Some ns \<and> distinct (map (\<lambda>m. m (key_field df_keys)) ns) \<and>
       set (map (\<lambda>m. m (key_field df_keys)) ns) = ?f ` (keys_of df_keys ?c2 - keys_of df_keys ?c1)"
    by simp_all
  then have "?f ` (keys_of df_keys ?c1 - keys_of df_keys ?c2) = ?f ` {1}"
    and "?f ` (keys_of df_keys ?c2 - keys_of df_keys ?c1) = ?f ` {3}"
    unfolding m n by (simp_all add: df_keys_def)
  then have "keys_of df_keys ?c1 - keys_of df_keys ?c2 = {1}"
    and "keys_of df_keys ?c2 - keys_of df_keys ?c1 = {3}"
    by (simp_all only: inj_image_eq_iff [OF inj])
  with 1 show ?thesis by (intro conjI)
qed

subsection \<open>The failure result and the successful result\<close>

text \<open>
  Claim C10. The failure result of \<^verbatim>\<open>diff\<close> is the empty dictionary, with none of the keys
  \<^verbatim>\<open>'missing'\<close>, \<^verbatim>\<open>'additional'\<close> and \<^verbatim>\<open>'different'\<close>; a result of \<^verbatim>\<open>diff\<close> that is not a failure
  has \<^verbatim>\<open>'missing'\<close> and \<^verbatim>\<open>'different'\<close>, and \<^verbatim>\<open>'additional'\<close> unless \<^verbatim>\<open>only_missing\<close> is true, also
  when their lists are empty. So the two are told apart.
\<close>

theorem diff_result_keys:
  "(diff_aborts df py c1 c2 allow_dup \<longrightarrow>
      diff df py c1 c2 only_missing allow_dup = Inr Map.empty) \<and>
   (\<forall>r. diff df py c1 c2 only_missing allow_dup = Inr r \<longrightarrow>
      (if diff_aborts df py c1 c2 allow_dup
       then r = Map.empty \<and> r MISSING = None \<and> r NEW = None \<and> r CHANGED = None
       else r MISSING \<noteq> None \<and> r CHANGED \<noteq> None \<and> (r NEW \<noteq> None \<longleftrightarrow> \<not> only_missing)))"
proof (intro conjI allI impI)
  assume "diff_aborts df py c1 c2 allow_dup"
  then show "diff df py c1 c2 only_missing allow_dup = Inr Map.empty"
    by (auto simp: diff_def diff_aborts_def split: outcome.splits)
next
  fix r assume "diff df py c1 c2 only_missing allow_dup = Inr r"
  from diff_Inr_cases [OF this]
  show "if diff_aborts df py c1 c2 allow_dup
       then r = Map.empty \<and> r MISSING = None \<and> r NEW = None \<and> r CHANGED = None
       else r MISSING \<noteq> None \<and> r CHANGED \<noteq> None \<and> (r NEW \<noteq> None \<longleftrightarrow> \<not> only_missing)"
    by auto
qed

theorem diff_result_keys_witness:
  "diff df_keys int_builtins [] [] False False =
     Inr [MISSING \<mapsto> [], NEW \<mapsto> [], CHANGED \<mapsto> []] \<and>
   \<not> diff_aborts df_keys int_builtins [] [] False \<and>
   diff df_keys int_builtins [Map.empty] [] False False = Inr Map.empty \<and>
   diff_aborts df_keys int_builtins [Map.empty] [] False"
proof -
  let ?r = "[MISSING \<mapsto> [], NEW \<mapsto> [], CHANGED \<mapsto> []] :: string \<rightharpoonup> int orec list"
  have 1: "diff df_keys int_builtins [] [] False False = Inr ?r"
    by (simp add: ex_defs df_keys_def)
  have 2: "diff_aborts df_keys int_builtins [Map.empty] [] False"
    by (simp add: diff_aborts_def ex_defs df_keys_def)
  have "\<forall>r. diff df_keys int_builtins [] [] False False = Inr r \<longrightarrow>
      (if diff_aborts df_keys int_builtins [] [] False
       then r = Map.empty \<and> r MISSING = None \<and> r NEW = None \<and> r CHANGED = None
       else r MISSING \<noteq> None \<and> r CHANGED \<noteq> None \<and> (r NEW \<noteq> None \<longleftrightarrow> \<not> False))"
    using diff_result_keys [of df_keys int_builtins "[]" "[]" False False] by (rule conjunct2)
  with 1 have "if diff_aborts df_keys int_builtins [] [] False
       then ?r MISSING = None else True"
    by (simp split: if_splits)
  moreover have "?r MISSING = Some []" by (simp add: MISSING_def NEW_def CHANGED_def)
  ultimately have 3: "\<not> diff_aborts df_keys int_builtins [] [] False"
    by (simp split: if_splits)
  have 4: "diff df_keys int_builtins [Map.empty] [] False False = Inr Map.empty"
    using diff_result_keys [of df_keys int_builtins "[Map.empty]" "[]" False False] 2 by blast
  from 1 3 4 2 show ?thesis by (intro conjI)
qed

subsection \<open>Duplicate keys\<close>




lemma query_loop_append:
  "query_loop df py allow_dup i (xs @ ys) st =
     (case query_loop df py allow_dup i xs st of
        Ok st' \<Rightarrow> query_loop df py allow_dup i ys st'
      | Abort \<Rightarrow> Abort
      | Raise e \<Rightarrow> Raise e)"
  by (induction xs arbitrary: st) (auto split: outcome.splits)









subsection \<open>A shared key without a numeric value\<close>

text \<open>
  Claim C1 says that a key for which the numeric extraction did not succeed in either
  snapshot is left out of the numeric comparison, so that the lookup of the old and the new
  value never fails. The code tolerates the missing property in the query loop (the second
  record of the first collection below counts as one missing property of two records, which
  is a warning), but \<^verbatim>\<open>_changed_props\<close> then looks the value up without a test:
  \<^verbatim>\<open>numprops[0][key][pkey]\<close> raises \<^verbatim>\<open>KeyError\<close> and \<^verbatim>\<open>diff\<close> ends with it.
\<close>

theorem diff_shared_key_missing_value:
  "Delta_init ''+-1'' = Inr delta_pm1 \<and>
   query_coll df_p int_builtins False 0 [[''_id'' \<mapsto> 1, ''p'' \<mapsto> 1], [''_id'' \<mapsto> 2]] [] =
     Ok \<lparr>keys = [2, 1], numprops = [1 \<mapsto> [''p'' \<mapsto> 1], 2 \<mapsto> Map.empty],
         eqprops = Map.empty, info_dict = [], count = 2, missing_props = 1\<rparr> \<and>
   diff df_p int_builtins [[''_id'' \<mapsto> 1, ''p'' \<mapsto> 1], [''_id'' \<mapsto> 2]]
     [[''_id'' \<mapsto> 2, ''p'' \<mapsto> 3]] False False = Inl KeyError"
proof -
  have 1: "Delta_init ''+-1'' = Inr delta_pm1" unfolding delta_pm1_def by code_simp
  have 2: "query_coll df_p int_builtins False 0 [[''_id'' \<mapsto> 1, ''p'' \<mapsto> 1], [''_id'' \<mapsto> 2]] [] =
     Ok \<lparr>keys = [2, 1], numprops = [1 \<mapsto> [''p'' \<mapsto> 1], 2 \<mapsto> Map.empty],
         eqprops = Map.empty, info_dict = [], count = 2, missing_props = 1\<rparr>"
    by (simp add: ex_defs df_p_def)
  have 3: "diff df_p int_builtins [[''_id'' \<mapsto> 1, ''p'' \<mapsto> 1], [''_id'' \<mapsto> 2]]
     [[''_id'' \<mapsto> 2, ''p'' \<mapsto> 3]] False False = Inl KeyError"
    by (simp add: ex_defs df_p_def)
  from 1 2 3 show ?thesis by (intro conjI)
qed

subsection \<open>The count of missing properties\<close>

text \<open>
  A record without the key field, once the loop reaches it, makes \<^verbatim>\<open>diff\<close> return the empty
  dictionary. Where a record can count once at most, the
  test after the loop is the one the log messages describe: the round returns the empty
  dictionary exactly when there are records and all of them miss a compared property.
\<close>

lemma diff_key_field_absent:
  assumes "rec (key_field df) = None"
  shows "query_loop df py allow_dup 0 pre (init_state []) = Ok st \<Longrightarrow>
           diff df py (pre @ rec # post) c2 only_missing allow_dup = Inr Map.empty"
    and "query_coll df py allow_dup 0 c1 [] = Ok st0 \<Longrightarrow>
         query_loop df py allow_dup 1 pre (init_state (info_dict st0)) = Ok st \<Longrightarrow>
           diff df py c1 (pre @ rec # post) only_missing allow_dup = Inr Map.empty"
proof -
  have a: "\<And>i st. query_step df py allow_dup i st rec = Abort"
    using assms by (simp add: query_step_def)
  {
    assume "query_loop df py allow_dup 0 pre (init_state []) = Ok st"
    with a show "diff df py (pre @ rec # post) c2 only_missing allow_dup = Inr Map.empty"
      by (simp add: diff_def query_coll_def query_loop_append)
  }
  {
    assume "query_coll df py allow_dup 0 c1 [] = Ok st0"
      and "query_loop df py allow_dup 1 pre (init_state (info_dict st0)) = Ok st"
    with a show "diff df py c1 (pre @ rec # post) only_missing allow_dup = Inr Map.empty"
      by (simp add: diff_def query_coll_def query_loop_append)
  }
qed

lemma numprops_loop_single:
  "numprops_loop py i key rec [pkey] pvals mp = Inr (pvals', mp') \<Longrightarrow>
     mp' = mp + (if rec pkey = None then 1 else 0)"
  by (auto split: option.splits)

lemma query_step_single_count:
  assumes "query_step df py allow_dup i st rec = Ok st'" and "single_count df"
  shows "missing_props st' = missing_props st + (if lacks_props py df rec then 1 else 0)"
proof (cases "prop_deltas df")
  case Nil
  with assms(1) show ?thesis
    by (auto simp: query_step_def Let_def lacks_props_def has_numprops_def
             split: option.splits if_splits)
next
  case (Cons pd pds)
  with assms(2) have pds: "pds = []" and p: "props df = []" by (simp_all add: single_count_def)
  obtain pkey delta where pd: "pd = (pkey, delta)" by (cases pd)
  from assms(1) Cons pds p pd obtain pvals mp key where
    l: "numprops_loop py i key rec [pkey] Map.empty (missing_props st) = Inr (pvals, mp)"
    and m: "missing_props st' = mp"
    by (auto simp: query_step_def Let_def has_numprops_def has_eqprops_def
             split: option.splits if_splits sum.splits)
  from numprops_loop_single [OF l] m Cons pds p pd show ?thesis
    by (simp add: lacks_props_def has_eqprops_def)
qed

lemma query_loop_single_count:
  assumes "query_loop df py allow_dup i recs st = Ok st'" and "single_count df"
  shows "missing_props st' = missing_props st + length (filter (lacks_props py df) recs) \<and>
         count st' = count st + length recs"
  using assms(1)
proof (induction recs arbitrary: st)
  case Nil
  then show ?case by simp
next
  case (Cons rec recs)
  from Cons.prems obtain st1 where 1: "query_step df py allow_dup i st rec = Ok st1"
    and 2: "query_loop df py allow_dup i recs st1 = Ok st'"
    by (auto split: outcome.splits)
  from query_step_single_count [OF 1 assms(2)]
  have m1: "missing_props st1 = missing_props st + (if lacks_props py df rec then 1 else 0)" .
  from query_step_Ok [OF 1] have c1: "count st1 = count st + 1" by blast
  from Cons.IH [OF 2] have
    m2: "missing_props st' = missing_props st1 + length (filter (lacks_props py df) recs)"
    and c2: "count st' = count st1 + length recs" by simp_all
  from m1 m2 c1 c2 show ?case by simp
qed

lemma length_filter_eq_iff: "length (filter P xs) = length xs \<longleftrightarrow> (\<forall>x \<in> set xs. P x)"
proof
  assume e: "length (filter P xs) = length xs"
  show "\<forall>x \<in> set xs. P x"
  proof
    fix x assume "x \<in> set xs"
    show "P x"
    proof (rule ccontr)
      assume "\<not> P x"
      with \<open>x \<in> set xs\<close> have "length (filter P xs) < length xs" by (rule length_filter_less)
      with e show False by simp
    qed
  qed
next
  assume "\<forall>x \<in> set xs. P x"
  then have "filter P xs = xs" by (simp add: filter_id_conv)
  then show "length (filter P xs) = length xs" by simp
qed

lemma query_coll_single_count:
  assumes "query_loop df py allow_dup i recs (init_state info0) = Ok st" and "single_count df"
  shows "query_coll df py allow_dup i recs info0 =
           (if recs \<noteq> [] \<and> (\<forall>rec \<in> set recs. lacks_props py df rec) then Abort else Ok st)"
proof -
  from query_loop_single_count [OF assms] have
    m: "missing_props st = length (filter (lacks_props py df) recs)" and c: "count st = length recs"
    by (simp_all add: init_state_def)
  have "count st = missing_props st \<longleftrightarrow> length (filter (lacks_props py df) recs) = length recs"
    unfolding m c by (rule eq_commute)
  also have "\<dots> \<longleftrightarrow> (\<forall>rec \<in> set recs. lacks_props py df rec)"
    by (rule length_filter_eq_iff)
  finally have e: "count st = missing_props st \<longleftrightarrow> (\<forall>rec \<in> set recs. lacks_props py df rec)" .
  have z: "0 < count st \<longleftrightarrow> recs \<noteq> []" unfolding c by simp
  have "query_coll df py allow_dup i recs info0 =
      (if 0 < count st \<and> count st = missing_props st then Abort else Ok st)"
    using assms(1) by (simp add: query_coll_def)
  then show ?thesis unfolding e z .
qed

text \<open>
  Claim C5 says that \<^verbatim>\<open>diff\<close> returns the failure value when at least one record was
  processed and all records of a source were missing compared properties, and succeeds with
  a warning when only some were. The code compares \<^verbatim>\<open>count\<close> with \<^verbatim>\<open>missing_props\<close>, which it
  raises once for every missing numeric property and once more for a missing equality
  property, not once for a record. With two numeric properties a single record that has
  neither gives \<open>1\<close> against \<open>2\<close> and \<^verbatim>\<open>diff\<close> goes on; a record that has neither and a record
  that has both give \<open>2\<close> against \<open>2\<close> and \<^verbatim>\<open>diff\<close> returns the empty dictionary.
\<close>

theorem diff_missing_props_count:
  "diff df_ab int_builtins [[''_id'' \<mapsto> 1]] [] False False =
     Inr [MISSING \<mapsto> [[''_id'' \<mapsto> Raw 1]], NEW \<mapsto> [], CHANGED \<mapsto> []] \<and>
   diff df_ab int_builtins [[''_id'' \<mapsto> 1], [''_id'' \<mapsto> 2, ''a'' \<mapsto> 1, ''b'' \<mapsto> 1]] [] False False =
     Inr Map.empty"
proof -
  have 1: "diff df_ab int_builtins [[''_id'' \<mapsto> 1]] [] False False =
     Inr [MISSING \<mapsto> [[''_id'' \<mapsto> Raw 1]], NEW \<mapsto> [], CHANGED \<mapsto> []]"
    by (simp add: ex_defs df_ab_def)
  have 2: "diff df_ab int_builtins [[''_id'' \<mapsto> 1], [''_id'' \<mapsto> 2, ''a'' \<mapsto> 1, ''b'' \<mapsto> 1]] [] False False =
     Inr Map.empty"
    by (simp add: ex_defs df_ab_def)
  from 1 2 show ?thesis by (intro conjI)
qed

subsection \<open>Exact changes\<close>











end
